theory Spec2Isabelle
  imports Main "HOL-Library.Word"
begin

unbundle bit_operations_syntax

section \<open>Errors and results\<close>

text \<open>
  The exception classes of \<^verbatim>\<open>util.hh\<close> that the modelled functions throw.
  \<^verbatim>\<open>UsageError\<close> carries which of the two messages of
  \<^verbatim>\<open>string2IntWithUnitPrefix\<close> was formatted and its argument;
  \<^verbatim>\<open>Interrupted\<close> is \<^verbatim>\<open>MakeError(Interrupted, BaseError)\<close>; \<^verbatim>\<open>SysError\<close> stands
  for a failed system call.
\<close>

datatype usage =
    InvalidUnitSpecifier char   \<comment> \<open>\<^verbatim>\<open>"invalid unit specifier '%1%'", u\<close>\<close>
  | NotAnInteger string         \<comment> \<open>\<^verbatim>\<open>"'%s' is not an integer", s\<close>\<close>

datatype error = UsageError usage | Interrupted | SysError

text \<open>
  What a call does: it returns a value, throws, or has undefined behaviour
  (signed overflow in C++).
\<close>

datatype 'a result = Return 'a | Throw error | Undefined_behaviour

section \<open>Characters in the classic locale\<close>

text \<open>
  \<^verbatim>\<open>std::isalpha\<close>, \<^verbatim>\<open>std::toupper\<close>, and the whitespace and digit classes used
  by stream extraction, as the tables of the "C" locale: only ASCII letters are
  alphabetic, and only lower-case ASCII letters change under \<^verbatim>\<open>toupper\<close>.
\<close>

definition lower_case :: string where
  "lower_case = ''abcdefghijklmnopqrstuvwxyz''"

definition upper_case :: string where
  "upper_case = ''ABCDEFGHIJKLMNOPQRSTUVWXYZ''"

definition isalpha :: "char \<Rightarrow> bool" where
  "isalpha c \<longleftrightarrow> c \<in> set (lower_case @ upper_case)"

definition toupper :: "char \<Rightarrow> char" where
  "toupper c = (case map_of (zip lower_case upper_case) c of Some u \<Rightarrow> u | None \<Rightarrow> c)"

definition isspace :: "char \<Rightarrow> bool" where
  "isspace c \<longleftrightarrow> c \<in> set [CHR 0x20, CHR 0x09, CHR 0x0A, CHR 0x0B, CHR 0x0C, CHR 0x0D]"

definition isdigit :: "char \<Rightarrow> bool" where
  "isdigit c \<longleftrightarrow> c \<in> set ''0123456789''"

definition digit_value :: "char \<Rightarrow> int" where
  "digit_value c = (case map_of (zip ''0123456789'' [0, 1, 2, 3, 4, 5, 6, 7, 8, 9]) c of
                      Some d \<Rightarrow> d | None \<Rightarrow> 0)"

definition decimal :: "string \<Rightarrow> int" where
  "decimal ds = foldl (\<lambda>n c. 10 * n + digit_value c) 0 ds"

section \<open>Formatted extraction of an integer\<close>

text \<open>
  \<^verbatim>\<open>std::istringstream str(s); N n; str >> n;\<close> with the stream's default flags
  (\<^verbatim>\<open>skipws\<close>, \<^verbatim>\<open>dec\<close>) in the classic locale. The integer type \<^verbatim>\<open>N\<close> is a
  word length \<^typ>\<open>'a\<close> together with \<^verbatim>\<open>std::numeric_limits<N>::is_signed\<close>; the
  model covers \<^verbatim>\<open>int\<close>, \<^verbatim>\<open>long\<close>, \<^verbatim>\<open>long long\<close> and their unsigned variants (the
  types for which \<^verbatim>\<open>>>\<close> reads a number and arithmetic is not promoted).

  Extraction skips leading whitespace, reads an optional sign and then the longest
  run of decimal digits. It sets \<^verbatim>\<open>failbit\<close> when there is no digit or when the value
  is out of the range of \<^verbatim>\<open>N\<close>. For an unsigned \<^verbatim>\<open>N\<close> a minus sign is accepted and
  the magnitude is negated modulo \<open>2 ^ LENGTH('a)\<close>, as \<^verbatim>\<open>strtoull\<close> does. The unread
  rest of the buffer is returned with the value.
\<close>

datatype 'a extracted = Failbit | Extracted 'a string

definition extract_int :: "bool \<Rightarrow> string \<Rightarrow> 'a::len word extracted" where
  "extract_int is_signed s =
     (let s1 = dropWhile isspace s;
          negative = (s1 \<noteq> [] \<and> hd s1 = CHR ''-'');
          s2 = (if s1 \<noteq> [] \<and> (hd s1 = CHR ''-'' \<or> hd s1 = CHR ''+'') then tl s1 else s1);
          ds = takeWhile isdigit s2;
          rest = dropWhile isdigit s2;
          m = decimal ds
      in if ds = [] then Failbit
         else if is_signed then
           (if negative then
              (if m \<le> 2 ^ (LENGTH('a) - 1) then Extracted (- word_of_int m) rest else Failbit)
            else
              (if m < 2 ^ (LENGTH('a) - 1) then Extracted (word_of_int m) rest else Failbit))
         else
           (if m < 2 ^ LENGTH('a)
            then Extracted (if negative then - word_of_int m else word_of_int m) rest
            else Failbit))"

section \<open>string2Int and string2IntWithUnitPrefix\<close>

text \<open>
  \<^verbatim>\<open>template<class N> std::optional<N> string2Int(const std::string & s)\<close>:
  the guard on a leading minus sign for an unsigned \<^verbatim>\<open>N\<close>, then the extraction, then
  \<^verbatim>\<open>str && str.get() == EOF\<close>: the extraction succeeded and nothing is left unread.
\<close>

definition string2Int :: "bool \<Rightarrow> string \<Rightarrow> 'a::len word option" where
  "string2Int is_signed s =
     (if take 1 s = ''-'' \<and> \<not> is_signed then None
      else case extract_int is_signed s of
             Extracted n rest \<Rightarrow> if rest = [] then Some n else None
           | Failbit \<Rightarrow> None)"

text \<open>
  The \<^verbatim>\<open>if\<close> chain on the upper-cased last character: \<^verbatim>\<open>multiplier = 1ULL << k\<close>
  converts a 64-bit unsigned value to \<^verbatim>\<open>N\<close>.
\<close>

definition unit_multiplier :: "char \<Rightarrow> usage + 'a::len word" where
  "unit_multiplier u =
     (if u = CHR ''K'' then Inr (ucast (push_bit 10 (1 :: 64 word)))
      else if u = CHR ''M'' then Inr (ucast (push_bit 20 (1 :: 64 word)))
      else if u = CHR ''G'' then Inr (ucast (push_bit 30 (1 :: 64 word)))
      else if u = CHR ''T'' then Inr (ucast (push_bit 40 (1 :: 64 word)))
      else Inl (InvalidUnitSpecifier u))"

text \<open>
  \<^verbatim>\<open>*n * multiplier\<close> in the type \<^verbatim>\<open>N\<close>: unsigned multiplication wraps around,
  signed multiplication that overflows is undefined.
\<close>

definition times_N :: "bool \<Rightarrow> 'a::len word \<Rightarrow> 'a word \<Rightarrow> 'a word result" where
  "times_N is_signed a b =
     (if is_signed \<and>
         \<not> (- (2 ^ (LENGTH('a) - 1)) \<le> sint a * sint b \<and> sint a * sint b < 2 ^ (LENGTH('a) - 1))
      then Undefined_behaviour
      else Return (a * b))"

definition string2IntWithUnitPrefix :: "bool \<Rightarrow> string \<Rightarrow> 'a::len word result" where
  "string2IntWithUnitPrefix is_signed s =
     (case (if s \<noteq> [] then
              (let u = toupper (last s) in
               if isalpha u then
                 (case unit_multiplier u of
                    Inl e \<Rightarrow> Inl e
                  | Inr multiplier \<Rightarrow> Inr (multiplier, butlast s))
               else Inr (1, s))
            else Inr (1, s)) of
        Inl e \<Rightarrow> Throw (UsageError e)
      | Inr (multiplier, s') \<Rightarrow>
          (case string2Int is_signed s' of
             Some n \<Rightarrow> times_N is_signed n multiplier
           | None \<Rightarrow> Throw (UsageError (NotAnInteger s'))))"

text \<open>
  The reading of a unit-prefixed number in the words of its documentation
  (\<^verbatim>\<open>Like string2Int(), but support an optional suffix 'K', 'M', 'G' or 'T' denoting
  a binary unit prefix\<close>): the suffix is the last character when it is a letter, the
  numeral is what is left, and a suffix, in either case, stands for a power of two.
  The theorems compare \<^const>\<open>string2IntWithUnitPrefix\<close> with this reading.
\<close>

definition unit_suffix :: "string \<Rightarrow> char option" where
  "unit_suffix s = (if s \<noteq> [] \<and> isalpha (last s) then Some (last s) else None)"

definition numeral_part :: "string \<Rightarrow> string" where
  "numeral_part s = (if s \<noteq> [] \<and> isalpha (last s) then butlast s else s)"

definition binary_prefix :: "char \<Rightarrow> nat option" where
  "binary_prefix c =
     map_of [(CHR ''K'', 10), (CHR ''k'', 10), (CHR ''M'', 20), (CHR ''m'', 20),
             (CHR ''G'', 30), (CHR ''g'', 30), (CHR ''T'', 40), (CHR ''t'', 40)] c"

definition unit_exponent :: "string \<Rightarrow> nat option" where
  "unit_exponent s = (case unit_suffix s of None \<Rightarrow> Some 0 | Some c \<Rightarrow> binary_prefix c)"


section \<open>User interruption\<close>

text \<open>
  Threads are \<^verbatim>\<open>pthread_t\<close> values. The signals sent with \<^verbatim>\<open>pthread_kill\<close> are kept
  in a log, oldest first; \<^verbatim>\<open>SIGUSR1\<close> is the constant of \<^verbatim>\<open><signal.h>\<close> (its Linux
  value).
\<close>

type_synonym pthread_t = nat

type_synonym signals = "(pthread_t \<times> int) list"

definition SIGUSR1 :: int where
  "SIGUSR1 = 10"

definition pthread_kill :: "pthread_t \<Rightarrow> int \<Rightarrow> signals \<Rightarrow> signals" where
  "pthread_kill thread sig sent = sent @ [(thread, sig)]"

text \<open>
  The process-wide state of the interrupt subsystem: the flag
  \<^verbatim>\<open>std::atomic<bool> _isInterrupted\<close> (line 340) and the registry of interrupt
  callbacks, in the order of registration, each under the handle that
  \<^verbatim>\<open>createInterruptCallback\<close> returned for it. A callback is a
  \<^verbatim>\<open>std::function<void()>\<close>; what it does is its effect on the log of sent signals.
\<close>

record interrupts =
  isInterrupted :: bool
  interruptCallbacks :: "(nat \<times> (signals \<Rightarrow> signals)) list"

text \<open>
  Modelled from the spec: \<^verbatim>\<open>void _interrupted()\<close> is declared in \<^verbatim>\<open>util.hh\<close> (line 346)
  and defined elsewhere. The specification says of \<^verbatim>\<open>checkInterrupt\<close> that "otherwise
  it raises an Interrupted failure", which is the call of \<^verbatim>\<open>_interrupted()\<close>.
\<close>

definition interrupted :: "unit result" where
  "interrupted = Throw Interrupted"

text \<open>
  \<^verbatim>\<open>checkInterrupt()\<close>, lines 348 to 352. The thread-local
  \<^verbatim>\<open>std::function<bool()> interruptCheck\<close> is \<open>None\<close> when empty; \<^verbatim>\<open>||\<close> and \<^verbatim>\<open>&&\<close>
  evaluate it only when the flag is unset and the function is present.
\<close>

definition checkInterrupt :: "interrupts \<Rightarrow> (unit \<Rightarrow> bool) option \<Rightarrow> unit result" where
  "checkInterrupt p interruptCheck =
     (if isInterrupted p \<or> (case interruptCheck of None \<Rightarrow> False | Some check \<Rightarrow> check ())
      then interrupted
      else Return ())"

text \<open>
  Modelled from the spec: how \<^verbatim>\<open>createInterruptCallback\<close> names a registration is
  not in \<^verbatim>\<open>util.hh\<close>. A new handle is a number above every handle in the registry,
  so that a handle names one registration, as the specification's
  "RegistrationHandle" does.
\<close>

fun fresh_handle :: "(nat \<times> 'c) list \<Rightarrow> nat" where
  "fresh_handle [] = 0"
| "fresh_handle ((h, c) # cbs) = max (Suc h) (fresh_handle cbs)"

text \<open>
  Modelled from the spec: \<^verbatim>\<open>createInterruptCallback\<close> is declared in \<^verbatim>\<open>util.hh\<close>
  (lines 558 to 561, "Register a function that gets called on SIGINT (in a non-signal
  context)") and defined elsewhere. The specification:
  "registerInterruptCallback(fn) -> RegistrationHandle", the callbacks being invoked
  "in the order of registration": the callback goes to the end of the registry.
\<close>

definition createInterruptCallback ::
    "(signals \<Rightarrow> signals) \<Rightarrow> interrupts \<Rightarrow> nat \<times> interrupts" where
  "createInterruptCallback callback p =
     (let h = fresh_handle (interruptCallbacks p)
      in (h, p\<lparr>interruptCallbacks := interruptCallbacks p @ [(h, callback)]\<rparr>))"

text \<open>
  Modelled from the spec: the destructor behind \<^verbatim>\<open>struct InterruptCallback\<close> (lines 553
  to 556, virtual) is defined elsewhere. The specification: "dropping the handle
  unregisters".
\<close>

definition dropInterruptCallback :: "nat \<Rightarrow> interrupts \<Rightarrow> interrupts" where
  "dropInterruptCallback h p =
     p\<lparr>interruptCallbacks := filter (\<lambda>e. fst e \<noteq> h) (interruptCallbacks p)\<rparr>"

text \<open>
  Modelled from the spec: the pass over the registry is not in \<^verbatim>\<open>util.hh\<close>. The
  specification: the listener "invokes every currently registered callback in the
  order of registration".
\<close>

definition invokeCallbacks :: "interrupts \<Rightarrow> signals \<Rightarrow> signals" where
  "invokeCallbacks p sent = fold (\<lambda>e w. snd e w) (interruptCallbacks p) sent"

text \<open>
  Modelled from the spec: the signal handler thread is started by
  \<^verbatim>\<open>startSignalHandlerThread()\<close>, declared in \<^verbatim>\<open>util.hh\<close> (line 551) and defined
  elsewhere. The specification: "On receiving the signal, the listener: (a) sets
  the process-wide flag, (b) invokes every currently registered callback in the order
  of registration".
\<close>

definition signalDelivered :: "interrupts \<Rightarrow> signals \<Rightarrow> interrupts \<times> signals" where
  "signalDelivered p sent = (p\<lparr>isInterrupted := True\<rparr>, invokeCallbacks p sent)"

text \<open>
  Modelled from the spec: \<^verbatim>\<open>triggerInterrupt()\<close> is declared in \<^verbatim>\<open>util.hh\<close> (line 563)
  and defined elsewhere. The specification: "explicit cancellation requests not
  originating from the OS signal may set the same flag programmatically (trigger
  interrupt) so the same checkpoints react uniformly", and triggering makes the
  threads blocked in a registered wait observe the interrupt, so the callbacks run
  as they do for the signal.
\<close>

definition triggerInterrupt :: "interrupts \<Rightarrow> signals \<Rightarrow> interrupts \<times> signals" where
  "triggerInterrupt p sent = (p\<lparr>isInterrupted := True\<rparr>, invokeCallbacks p sent)"

text \<open>
  The operations of one process lifetime that touch the flag. \<^verbatim>\<open>checkInterrupt()\<close>
  reads the flag and writes nothing (lines 348 to 352); whether it throws is
  \<^const>\<open>checkInterrupt\<close>.
\<close>

datatype interrupt_op =
    SignalDelivery
  | TriggerInterrupt
  | CheckInterrupt "(unit \<Rightarrow> bool) option"

fun interrupt_step :: "interrupts \<times> signals \<Rightarrow> interrupt_op \<Rightarrow> interrupts \<times> signals" where
  "interrupt_step (p, sent) SignalDelivery = signalDelivered p sent"
| "interrupt_step (p, sent) TriggerInterrupt = triggerInterrupt p sent"
| "interrupt_step (p, sent) (CheckInterrupt c) = (p, sent)"

text \<open>
  \<^verbatim>\<open>struct ReceiveInterrupts\<close>, lines 568 to 577. The constructor stores
  \<^verbatim>\<open>pthread_self()\<close> in \<^verbatim>\<open>target\<close> and registers the callback
  \<^verbatim>\<open>[&]() { pthread_kill(target, SIGUSR1); }\<close>; the member \<^verbatim>\<open>callback\<close> is the
  \<^verbatim>\<open>std::unique_ptr<InterruptCallback>\<close>, here the handle.
\<close>

record ReceiveInterrupts =
  target :: pthread_t
  callback :: nat

definition ReceiveInterrupts_ctor ::
    "pthread_t \<Rightarrow> interrupts \<Rightarrow> ReceiveInterrupts \<times> interrupts" where
  "ReceiveInterrupts_ctor pthread_self p =
     (let target = pthread_self;
          (h, p') = createInterruptCallback (\<lambda>sent. pthread_kill target SIGUSR1 sent) p
      in (\<lparr>target = target, callback = h\<rparr>, p'))"

text \<open>
  The implicit destructor of \<^verbatim>\<open>ReceiveInterrupts\<close> destroys the member \<^verbatim>\<open>callback\<close>,
  which drops the handle.
\<close>

definition ReceiveInterrupts_dtor :: "ReceiveInterrupts \<Rightarrow> interrupts \<Rightarrow> interrupts" where
  "ReceiveInterrupts_dtor r p = dropInterruptCallback (callback r) p"

text \<open>
  What other threads do to the registry while a \<^verbatim>\<open>ReceiveInterrupts\<close> is alive: they
  register callbacks of their own and drop handles of their own.
\<close>

datatype registry_op = Register "signals \<Rightarrow> signals" | Unregister nat

fun registry_step :: "interrupts \<Rightarrow> registry_op \<Rightarrow> interrupts" where
  "registry_step q (Register cb) = snd (createInterruptCallback cb q)"
| "registry_step q (Unregister h) = dropInterruptCallback h q"

section \<open>AutoCloseFD\<close>

text \<open>
  \<^verbatim>\<open>class AutoCloseFD\<close>, lines 188 to 203, has the one field \<^verbatim>\<open>int fd\<close>. The calls of
  \<^verbatim>\<open>close(2)\<close> that a handle makes are kept in a log, oldest first. The member
  functions are declared in \<^verbatim>\<open>util.hh\<close> and defined elsewhere.
\<close>

record AutoCloseFD =
  fd :: int

type_synonym closes = "int list"

text \<open>
  Modelled from the spec: \<^verbatim>\<open>AutoCloseFD()\<close> is declared only. The specification:
  "value -1 means no resource held".
\<close>

definition AutoCloseFD_default :: AutoCloseFD where
  "AutoCloseFD_default = \<lparr>fd = - 1\<rparr>"

text \<open>
  Modelled from the spec: \<^verbatim>\<open>AutoCloseFD(int fd)\<close> is declared only. The
  specification: "created from a raw descriptor".
\<close>

definition AutoCloseFD_of :: "int \<Rightarrow> AutoCloseFD" where
  "AutoCloseFD_of n = \<lparr>fd = n\<rparr>"

text \<open>
  Modelled from the spec: \<^verbatim>\<open>int get() const\<close> is declared only. The specification:
  "get() returns the raw value without transferring ownership".
\<close>

definition get :: "AutoCloseFD \<Rightarrow> int" where
  "get h = fd h"

text \<open>
  Modelled from the spec: \<^verbatim>\<open>void close()\<close> is declared only. The specification: the
  owned cleanup of a descriptor is closing it, and afterwards the handle holds no
  resource; a handle that holds none closes nothing.
\<close>

definition close :: "AutoCloseFD \<times> closes \<Rightarrow> AutoCloseFD \<times> closes" where
  "close st = (case st of (h, closed) \<Rightarrow>
     if fd h \<noteq> - 1 then (h\<lparr>fd := - 1\<rparr>, closed @ [fd h]) else (h, closed))"

text \<open>
  Modelled from the spec: \<^verbatim>\<open>int release()\<close> is declared only. The specification:
  "release() transfers ownership to the caller and disarms destruction-time cleanup",
  "ownership transferred out, no close performed".
\<close>

definition release :: "AutoCloseFD \<Rightarrow> int \<times> AutoCloseFD" where
  "release h = (fd h, h\<lparr>fd := - 1\<rparr>)"

text \<open>
  Modelled from the spec: the assignment operator is declared only. The
  specification: "assigning a new raw value to an already-owning handle first
  performs the owned cleanup of the old value".
\<close>

definition assign :: "int \<Rightarrow> AutoCloseFD \<times> closes \<Rightarrow> AutoCloseFD \<times> closes" where
  "assign n st = (case close st of (h, closed) \<Rightarrow> (h\<lparr>fd := n\<rparr>, closed))"

text \<open>
  Modelled from the spec: \<^verbatim>\<open>~AutoCloseFD()\<close> is declared only. The specification:
  "destroyed by closing exactly once when the owner goes out of scope".
\<close>

definition AutoCloseFD_dtor :: "AutoCloseFD \<times> closes \<Rightarrow> closes" where
  "AutoCloseFD_dtor st = snd (close st)"

text \<open>
  The life of one handle: constructed from a raw descriptor, then any sequence of
  operations, then destroyed. The result is the log of the descriptors it closed.
\<close>

datatype fd_op = Assign int | Release | Close | Get

fun fd_step :: "AutoCloseFD \<times> closes \<Rightarrow> fd_op \<Rightarrow> AutoCloseFD \<times> closes" where
  "fd_step st (Assign n) = assign n st"
| "fd_step (h, closed) Release = (snd (release h), closed)"
| "fd_step st Close = close st"
| "fd_step (h, closed) Get = (h, closed)"

definition fd_lifetime :: "int \<Rightarrow> fd_op list \<Rightarrow> closes" where
  "fd_lifetime d ops = AutoCloseFD_dtor (foldl fd_step (AutoCloseFD_of d, []) ops)"

text \<open>The same from any handle and log: the operations, then the destruction.\<close>

definition fd_run :: "AutoCloseFD \<times> closes \<Rightarrow> fd_op list \<Rightarrow> closes" where
  "fd_run st ops = AutoCloseFD_dtor (foldl fd_step st ops)"

text \<open>The raw descriptors that a sequence of operations assigns to the handle, in order.\<close>

fun assigned :: "fd_op list \<Rightarrow> int list" where
  "assigned [] = []"
| "assigned (Assign n # ops) = n # assigned ops"
| "assigned (Release # ops) = assigned ops"
| "assigned (Close # ops) = assigned ops"
| "assigned (Get # ops) = assigned ops"

section \<open>Pid\<close>

text \<open>
  \<^verbatim>\<open>class Pid\<close>, lines 233 to 250, with the fields
  \<^verbatim>\<open>pid_t pid = -1; bool separatePG = false; int killSignal = SIGKILL;\<close>.
  \<^verbatim>\<open>SIGKILL\<close> is the constant of \<^verbatim>\<open><signal.h>\<close>.
\<close>

definition SIGKILL :: int where
  "SIGKILL = 9"

record Pid =
  pid :: int
  separatePG :: bool
  killSignal :: int

text \<open>
  Modelled from the spec: \<^verbatim>\<open>Pid()\<close> is declared in \<^verbatim>\<open>util.hh\<close> and defined elsewhere.
  The fields take the values of their default member initializers (lines 235 to
  237), and the specification gives the same defaults: no child, "default: forceful
  kill".
\<close>

definition Pid_default :: Pid where
  "Pid_default = \<lparr>pid = - 1, separatePG = False, killSignal = SIGKILL\<rparr>"

text \<open>
  Modelled from the spec: \<^verbatim>\<open>Pid(pid_t pid)\<close> is declared in \<^verbatim>\<open>util.hh\<close> and defined
  elsewhere. The handle owns the child it is given; the other fields take the
  values of their default member initializers.
\<close>

definition Pid_of :: "int \<Rightarrow> Pid" where
  "Pid_of child = \<lparr>pid = child, separatePG = False, killSignal = SIGKILL\<rparr>"

text \<open>
  Modelled from the spec: \<^verbatim>\<open>setSeparatePG\<close> and \<^verbatim>\<open>setKillSignal\<close> are declared in
  \<^verbatim>\<open>util.hh\<close> and defined elsewhere. The specification: the handle's attributes are the
  "target signal used to terminate it" and "whether it belongs to a separate process
  group"; each setter stores its argument.
\<close>

definition setSeparatePG :: "bool \<Rightarrow> Pid \<Rightarrow> Pid" where
  "setSeparatePG b p = p\<lparr>separatePG := b\<rparr>"

definition setKillSignal :: "int \<Rightarrow> Pid \<Rightarrow> Pid" where
  "setKillSignal sig p = p\<lparr>killSignal := sig\<rparr>"

text \<open>
  The calls of \<^verbatim>\<open>kill(2)\<close> are kept in a log of (target, signal), oldest first; a
  negative target is a process group.
\<close>

type_synonym kills = "(int \<times> int) list"

text \<open>
  Modelled from the spec: \<^verbatim>\<open>int Pid::kill()\<close> is declared in \<^verbatim>\<open>util.hh\<close> and defined
  elsewhere. The specification: the handle "sends the configured signal and reaps
  it", and a child in a separate process group is signalled through its group "so
  that signals can later be delivered to the whole subtree". After the call the
  handle holds no child. A handle that holds no child has nothing to signal:
  \<open>None\<close>.
\<close>

definition kill :: "Pid \<Rightarrow> kills \<Rightarrow> (Pid \<times> kills) option" where
  "kill p sent =
     (if pid p = - 1 then None
      else Some (p\<lparr>pid := - 1\<rparr>,
                 sent @ [(if separatePG p then - pid p else pid p, killSignal p)]))"

section \<open>The saved mount namespace\<close>

text \<open>
  The state is the recorded namespace, if any, and the namespace the process is
  in.
\<close>

type_synonym mnt_ns = nat

record mount_state =
  fdSavedMountNamespace :: "mnt_ns option"
  currentMountNamespace :: mnt_ns

text \<open>
  Modelled from the spec: \<^verbatim>\<open>saveMountNamespace()\<close> is declared in \<^verbatim>\<open>util.hh\<close> (lines
  305 to 307, "Save the current mount namespace. Ignored if called more than once.")
  and defined elsewhere. The specification: "the first call durably records a
  reference to the namespace active at that moment; subsequent calls are no-ops".
\<close>

definition saveMountNamespace :: "mount_state \<Rightarrow> mount_state" where
  "saveMountNamespace s =
     (case fdSavedMountNamespace s of
        None \<Rightarrow> s\<lparr>fdSavedMountNamespace := Some (currentMountNamespace s)\<rparr>
      | Some saved \<Rightarrow> s)"

text \<open>
  Modelled from the spec: \<^verbatim>\<open>restoreMountNamespace()\<close> is declared in \<^verbatim>\<open>util.hh\<close>
  (lines 309 to 311, "Restore the mount namespace saved by saveMountNamespace().
  Ignored if saveMountNamespace() was never called.") and defined elsewhere. The
  specification: "if a snapshot exists, re-enters that namespace". \<open>setns\<close> says
  whether the kernel lets the process enter a namespace; a refusal is a
  \<^verbatim>\<open>SysError\<close>.
\<close>

definition restoreMountNamespace ::
    "(mnt_ns \<Rightarrow> bool) \<Rightarrow> mount_state \<Rightarrow> mount_state result" where
  "restoreMountNamespace setns s =
     (case fdSavedMountNamespace s of
        None \<Rightarrow> Return s
      | Some saved \<Rightarrow>
          if setns saved then Return (s\<lparr>currentMountNamespace := saved\<rparr>)
          else Throw SysError)"

text \<open>
  Modelled from the spec: what a sandboxing caller does between a save and a
  restore is not in \<^verbatim>\<open>util.hh\<close>. The specification: "sandboxed child setup may
  re-associate the calling process with a different mount namespace".
\<close>

definition enterMountNamespace :: "mnt_ns \<Rightarrow> mount_state \<Rightarrow> mount_state" where
  "enterMountNamespace ns s = s\<lparr>currentMountNamespace := ns\<rparr>"

text \<open>\<open>n\<close> calls of \<^verbatim>\<open>restoreMountNamespace()\<close> in a row; the first exception ends them.\<close>

fun restores :: "(mnt_ns \<Rightarrow> bool) \<Rightarrow> nat \<Rightarrow> mount_state \<Rightarrow> mount_state result" where
  "restores setns 0 s = Return s"
| "restores setns (Suc n) s =
     (case restoreMountNamespace setns s of
        Return s' \<Rightarrow> restores setns n s'
      | Throw e \<Rightarrow> Throw e
      | Undefined_behaviour \<Rightarrow> Undefined_behaviour)"

section \<open>Properties of the integer parsers\<close>

lemmas parse_defs =
  string2IntWithUnitPrefix_def string2Int_def extract_int_def toupper_def isalpha_def
  isspace_def isdigit_def digit_value_def decimal_def unit_multiplier_def times_N_def
  lower_case_def upper_case_def

lemma toupper_lower: "c \<in> set lower_case \<Longrightarrow> toupper c \<in> set upper_case"
  unfolding toupper_def
  by (auto simp: lower_case_def upper_case_def)

lemma toupper_other: "c \<notin> set lower_case \<Longrightarrow> toupper c = c"
  unfolding toupper_def
  by (auto simp: lower_case_def upper_case_def)

lemma isalpha_toupper: "isalpha (toupper c) = isalpha c"
proof (cases "c \<in> set lower_case")
  case True
  then show ?thesis using toupper_lower[OF True] by (simp add: isalpha_def)
next
  case False
  then show ?thesis by (simp add: toupper_other)
qed

text \<open>The multiplier \<^verbatim>\<open>1ULL << k\<close>, converted to \<^verbatim>\<open>N\<close>, is \<open>2 ^ k\<close> modulo the width of \<^verbatim>\<open>N\<close>.\<close>

lemma ucast_unit: "k < 64 \<Longrightarrow> (ucast (push_bit k (1 :: 64 word)) :: 'a::len word) = 2 ^ k"
  by (rule bit_word_eqI) (auto simp: bit_simps)

lemma unit_multiplier_toupper:
  "(unit_multiplier (toupper c) :: usage + 'a::len word) =
     (case binary_prefix c of
        Some k \<Rightarrow> Inr (2 ^ k)
      | None \<Rightarrow> Inl (InvalidUnitSpecifier (toupper c)))"
proof (cases "c \<in> set lower_case")
  case True
  then show ?thesis
    unfolding toupper_def unit_multiplier_def binary_prefix_def
    by (auto simp: lower_case_def upper_case_def ucast_unit)
next
  case False
  then show ?thesis
    unfolding toupper_other[OF False] unit_multiplier_def binary_prefix_def
    by (auto simp: lower_case_def ucast_unit)
qed

lemma unat_times_pow:
  "unat ((n :: 'a::len word) * 2 ^ k) = (unat n * 2 ^ k) mod 2 ^ LENGTH('a)"
proof -
  have "n * 2 ^ k = word_of_nat (unat n * 2 ^ k)" by simp
  then have "unat (n * 2 ^ k) = unat (word_of_nat (unat n * 2 ^ k) :: 'a word)" by (simp only:)
  then show ?thesis by (simp only: unat_of_nat)
qed

lemma sint_pow:
  assumes "k < LENGTH('a) - 1"
  shows "sint (2 ^ k :: 'a::len word) = 2 ^ k"
proof -
  have "(2 ^ k :: 'a word) = word_of_int (2 ^ k)" by simp
  then have "sint (2 ^ k :: 'a word) = signed_take_bit (LENGTH('a) - 1) (2 ^ k :: int)"
    by (simp only: sint_sbintrunc')
  also have "\<dots> = 2 ^ k"
    using assms by (intro signed_take_bit_int_eq_self) (auto intro: order_trans[of _ 0])
  finally show ?thesis .
qed

lemma sint_times_in_range:
  fixes a b :: "'a::len word"
  assumes "- (2 ^ (LENGTH('a) - 1)) \<le> sint a * sint b" "sint a * sint b < 2 ^ (LENGTH('a) - 1)"
  shows "sint (a * b) = sint a * sint b"
proof -
  have "a * b = word_of_int (sint a * sint b)" by simp
  then have "sint (a * b) = signed_take_bit (LENGTH('a) - 1) (sint a * sint b)"
    by (simp only: sint_sbintrunc')
  then show ?thesis using assms by (simp add: signed_take_bit_int_eq_self)
qed

text \<open>The first half of the function, the choice of the multiplier, in one case split.\<close>

lemma unit_chain:
  "(if s \<noteq> [] then
      (let u = toupper (last s) in
       if isalpha u then
         (case unit_multiplier u of
            Inl e \<Rightarrow> Inl e
          | Inr multiplier \<Rightarrow> Inr (multiplier, butlast s))
       else Inr (1, s))
    else Inr (1, s)) =
   (case unit_exponent s of
      None \<Rightarrow> Inl (InvalidUnitSpecifier (toupper (last s)))
    | Some k \<Rightarrow> Inr (2 ^ k :: 'a::len word, numeral_part s))"
  by (simp add: Let_def isalpha_toupper unit_multiplier_toupper unit_exponent_def
      unit_suffix_def numeral_part_def split: option.splits)

lemma string2IntWithUnitPrefix_alt:
  "(string2IntWithUnitPrefix is_signed s :: 'a::len word result) =
     (case unit_exponent s of
        None \<Rightarrow> Throw (UsageError (InvalidUnitSpecifier (toupper (last s))))
      | Some k \<Rightarrow>
          (case string2Int is_signed (numeral_part s) of
             Some n \<Rightarrow> times_N is_signed n (2 ^ k)
           | None \<Rightarrow> Throw (UsageError (NotAnInteger (numeral_part s)))))"
  unfolding string2IntWithUnitPrefix_def unit_chain
  by (simp split: option.splits)

lemma times_N_not_Throw: "times_N is_signed a b \<noteq> Throw e"
  by (simp add: times_N_def)

lemma unit_exponent_None:
  "unit_exponent s = None \<longleftrightarrow> (\<exists>c. unit_suffix s = Some c \<and> binary_prefix c = None)"
  by (simp add: unit_exponent_def split: option.splits)

text \<open>
  Claim C8, as the code has it. \<^verbatim>\<open>string2IntWithUnitPrefix<N>(s)\<close> throws
  \<^verbatim>\<open>UsageError\<close> exactly when \<open>s\<close> is malformed: its last character is a letter
  other than K, M, G, T in either case, or what is left after the suffix is not
  accepted by \<^verbatim>\<open>string2Int<N>\<close>. Otherwise, for a suffix standing for \<open>2 ^ k\<close>
  (\<open>k = 0\<close> without a suffix) and the parsed integer \<open>n\<close>, the product is taken in
  the type \<^verbatim>\<open>N\<close>: an unsigned \<^verbatim>\<open>N\<close> returns \<open>n * 2 ^ k\<close> reduced modulo
  \<open>2 ^ LENGTH('a)\<close>, and a signed \<^verbatim>\<open>N\<close> returns \<open>n * 2 ^ k\<close> whenever the
  multiplier and the product are representable in \<^verbatim>\<open>N\<close>.
\<close>

theorem string2IntWithUnitPrefix_cases:
  "((\<exists>e. (string2IntWithUnitPrefix is_signed s :: 'a::len word result) = Throw (UsageError e)) \<longleftrightarrow>
      (\<exists>c. unit_suffix s = Some c \<and> binary_prefix c = None) \<or>
      (string2Int is_signed (numeral_part s) :: 'a word option) = None)
   \<and> (\<forall>n k. unit_exponent s = Some k \<and>
             string2Int is_signed (numeral_part s) = Some (n :: 'a word) \<longrightarrow>
         (\<not> is_signed \<longrightarrow>
            (\<exists>r :: 'a word. string2IntWithUnitPrefix is_signed s = Return r \<and>
                 unat r = (unat n * 2 ^ k) mod 2 ^ LENGTH('a))) \<and>
         (is_signed \<and> k < LENGTH('a) - 1 \<and>
            - (2 ^ (LENGTH('a) - 1)) \<le> sint n * 2 ^ k \<and> sint n * 2 ^ k < 2 ^ (LENGTH('a) - 1) \<longrightarrow>
            (\<exists>r :: 'a word. string2IntWithUnitPrefix is_signed s = Return r \<and>
                 sint r = sint n * 2 ^ k)))"
proof (intro conjI allI impI)
  show "(\<exists>e. (string2IntWithUnitPrefix is_signed s :: 'a word result) = Throw (UsageError e)) \<longleftrightarrow>
      (\<exists>c. unit_suffix s = Some c \<and> binary_prefix c = None) \<or>
      (string2Int is_signed (numeral_part s) :: 'a word option) = None"
    unfolding string2IntWithUnitPrefix_alt unit_exponent_None[symmetric]
    by (auto simp: times_N_not_Throw split: option.splits)
next
  fix n :: "'a word" and k
  assume ok: "unit_exponent s = Some k \<and> string2Int is_signed (numeral_part s) = Some n"
    and u: "\<not> is_signed"
  then have "string2IntWithUnitPrefix is_signed s = Return (n * 2 ^ k)"
    by (simp add: string2IntWithUnitPrefix_alt times_N_def)
  then show "\<exists>r :: 'a word. string2IntWithUnitPrefix is_signed s = Return r \<and>
                 unat r = (unat n * 2 ^ k) mod 2 ^ LENGTH('a)"
    using unat_times_pow[of n k] by blast
next
  fix n :: "'a word" and k
  assume ok: "unit_exponent s = Some k \<and> string2Int is_signed (numeral_part s) = Some n"
    and sg: "is_signed \<and> k < LENGTH('a) - 1 \<and>
            - (2 ^ (LENGTH('a) - 1)) \<le> sint n * 2 ^ k \<and> sint n * 2 ^ k < 2 ^ (LENGTH('a) - 1)"
  from sg have p: "sint (2 ^ k :: 'a word) = 2 ^ k" by (simp add: sint_pow)
  with sg have "times_N is_signed n (2 ^ k) = Return (n * 2 ^ k)"
    by (simp add: times_N_def)
  moreover have "sint (n * 2 ^ k) = sint n * 2 ^ k"
    using sint_times_in_range[of n "2 ^ k"] sg p by simp
  ultimately show "\<exists>r :: 'a word. string2IntWithUnitPrefix is_signed s = Return r \<and>
                 sint r = sint n * 2 ^ k"
    using ok by (simp add: string2IntWithUnitPrefix_alt)
qed

text \<open>
  The theorem at \<^verbatim>\<open>"16k"\<close> for an unsigned 64-bit \<^verbatim>\<open>N\<close>, at \<^verbatim>\<open>"-3M"\<close> for a signed
  one, and at the malformed \<^verbatim>\<open>"16x"\<close>.
\<close>

theorem string2IntWithUnitPrefix_cases_witness:
  "unit_exponent ''16k'' = Some 10 \<and>
   (string2Int False (numeral_part ''16k'') :: 64 word option) = Some 16 \<and>
   (string2IntWithUnitPrefix False ''16k'' :: 64 word result) = Return 16384 \<and>
   unat (16384 :: 64 word) = (unat (16 :: 64 word) * 2 ^ 10) mod 2 ^ LENGTH(64) \<and>
   unit_exponent ''-3M'' = Some 20 \<and>
   (string2Int True (numeral_part ''-3M'') :: 64 word option) = Some (- 3) \<and>
   (string2IntWithUnitPrefix True ''-3M'' :: 64 word result) = Return (- 3145728) \<and>
   sint (- 3145728 :: 64 word) = sint (- 3 :: 64 word) * 2 ^ 20 \<and>
   (\<exists>e. (string2IntWithUnitPrefix False ''16x'' :: 64 word result) = Throw (UsageError e))"
  using string2IntWithUnitPrefix_cases[where s = "''16k''" and is_signed = False and 'a = 64]
    string2IntWithUnitPrefix_cases[where s = "''-3M''" and is_signed = True and 'a = 64]
    string2IntWithUnitPrefix_cases[where s = "''16x''" and is_signed = False and 'a = 64]
  by (simp add: parse_defs unit_exponent_def unit_suffix_def numeral_part_def binary_prefix_def)

text \<open>
  Claim C8 as the specification words it, with the product of the parsed integer and
  \<open>2 ^ 40\<close> as a number, fails where the product leaves the range of \<^verbatim>\<open>N\<close>: for an
  unsigned 64-bit \<^verbatim>\<open>N\<close>, \<^verbatim>\<open>"16777216T"\<close> parses to \<open>16777216 = 2 ^ 24\<close> and the
  call returns \<open>0\<close>, not \<open>2 ^ 64\<close>.
\<close>

theorem string2IntWithUnitPrefix_overflow:
  "(string2Int False ''16777216'' :: 64 word option) = Some 16777216 \<and>
   (string2IntWithUnitPrefix False ''16777216T'' :: 64 word result) = Return 0 \<and>
   unat (0 :: 64 word) \<noteq> 16777216 * 2 ^ 40"
  by (simp add: parse_defs)

text \<open>
  Claim C10. For an unsigned \<^verbatim>\<open>N\<close>, \<^verbatim>\<open>string2Int<N>(s)\<close> returns no value for every
  string that starts with a minus sign: the guard before the extraction rejects it.
\<close>

theorem string2Int_unsigned_minus:
  "s \<noteq> [] \<Longrightarrow> hd s = CHR ''-'' \<Longrightarrow> (string2Int False s :: 'a::len word option) = None"
  by (cases s) (simp_all add: string2Int_def)

theorem string2Int_unsigned_minus_witness:
  "''-5'' \<noteq> [] \<and> hd ''-5'' = CHR ''-'' \<and> (string2Int False ''-5'' :: 64 word option) = None"
  using string2Int_unsigned_minus[of "''-5''"] by simp

text \<open>
  Without the guard the extraction alone would accept the string and wrap the value
  around, which is what the guard is there to prevent.
\<close>

lemma extract_int_wraps:
  "(extract_int False ''-5'' :: 64 word extracted) = Extracted 18446744073709551611 []"
  by (simp add: parse_defs)

section \<open>Properties of user interruption\<close>

text \<open>
  Claim C1. \<^verbatim>\<open>checkInterrupt()\<close> returns normally if and only if the process-wide flag
  is unset and the thread-local predicate is absent or returns false; it throws
  \<^verbatim>\<open>Interrupted\<close> if and only if the flag is set, or the predicate is present and
  returns true.
\<close>

theorem checkInterrupt_iff:
  "(checkInterrupt p c = Return () \<longleftrightarrow>
      \<not> isInterrupted p \<and> (c = None \<or> (\<exists>check. c = Some check \<and> \<not> check ()))) \<and>
   (checkInterrupt p c = Throw Interrupted \<longleftrightarrow>
      isInterrupted p \<or> (\<exists>check. c = Some check \<and> check ()))"
  by (cases c) (auto simp: checkInterrupt_def interrupted_def)

lemma step_keeps_flag:
  "isInterrupted (fst st) \<Longrightarrow> isInterrupted (fst (interrupt_step st x))"
  by (cases st; cases x) (simp_all add: signalDelivered_def triggerInterrupt_def)

lemma steps_keep_flag:
  "isInterrupted (fst st) \<Longrightarrow> isInterrupted (fst (foldl interrupt_step st ops))"
  by (induction ops arbitrary: st) (simp_all add: step_keeps_flag)

text \<open>
  Claim C2, as the model has it. In every sequence of signal deliveries,
  \<^verbatim>\<open>triggerInterrupt()\<close> calls and \<^verbatim>\<open>checkInterrupt()\<close> calls, once the flag is set it
  is set after every further operation. Triggering the interrupt when the flag is
  already set leaves the flag and the registry of callbacks as they were and invokes
  every registered callback once more; with no callback registered it changes
  nothing at all.
\<close>

theorem interrupt_flag_monotone:
  assumes "isInterrupted (fst (foldl interrupt_step st before))"
  shows "isInterrupted (fst (foldl interrupt_step st (before @ after))) \<and>
         interrupt_step (foldl interrupt_step st before) TriggerInterrupt =
           (fst (foldl interrupt_step st before),
            invokeCallbacks (fst (foldl interrupt_step st before))
              (snd (foldl interrupt_step st before))) \<and>
         (interruptCallbacks (fst (foldl interrupt_step st before)) = [] \<longrightarrow>
            interrupt_step (foldl interrupt_step st before) TriggerInterrupt =
              foldl interrupt_step st before)"
proof -
  obtain p sent where st': "foldl interrupt_step st before = (p, sent)"
    by (cases "foldl interrupt_step st before")
  with assms have "isInterrupted p" by simp
  then have same: "p\<lparr>isInterrupted := True\<rparr> = p" by simp
  have "isInterrupted (fst (foldl interrupt_step st (before @ after)))"
    using steps_keep_flag[OF assms, of after] by simp
  moreover have "interrupt_step (p, sent) TriggerInterrupt = (p, invokeCallbacks p sent)"
    by (simp add: triggerInterrupt_def same)
  moreover have "interrupt_step (p, sent) TriggerInterrupt = (p, sent)"
    if "interruptCallbacks p = []"
    using that by (simp add: triggerInterrupt_def same invokeCallbacks_def)
  ultimately show ?thesis unfolding st' by simp
qed

text \<open>
  The theorem at a process with one callback registered, which signals thread 7, and
  at a process with none: after a delivered signal the flag stays set and a trigger
  signals thread 7 a second time; with no callback a second trigger changes nothing.
\<close>

theorem interrupt_flag_monotone_witness:
  "isInterrupted (fst (foldl interrupt_step
      (\<lparr>isInterrupted = False, interruptCallbacks = [(0, pthread_kill 7 SIGUSR1)]\<rparr>, [])
      [CheckInterrupt None, SignalDelivery])) \<and>
   isInterrupted (fst (foldl interrupt_step
      (\<lparr>isInterrupted = False, interruptCallbacks = [(0, pthread_kill 7 SIGUSR1)]\<rparr>, [])
      ([CheckInterrupt None, SignalDelivery] @ [CheckInterrupt None, TriggerInterrupt]))) \<and>
   interrupt_step (foldl interrupt_step
      (\<lparr>isInterrupted = False, interruptCallbacks = [(0, pthread_kill 7 SIGUSR1)]\<rparr>, [])
      [CheckInterrupt None, SignalDelivery]) TriggerInterrupt =
     (\<lparr>isInterrupted = True, interruptCallbacks = [(0, pthread_kill 7 SIGUSR1)]\<rparr>,
      [(7, SIGUSR1), (7, SIGUSR1)]) \<and>
   interruptCallbacks (fst (foldl interrupt_step
      (\<lparr>isInterrupted = False, interruptCallbacks = []\<rparr>, []) [TriggerInterrupt])) = [] \<and>
   interrupt_step (foldl interrupt_step
      (\<lparr>isInterrupted = False, interruptCallbacks = []\<rparr>, []) [TriggerInterrupt]) TriggerInterrupt =
     foldl interrupt_step (\<lparr>isInterrupted = False, interruptCallbacks = []\<rparr>, []) [TriggerInterrupt]"
  using interrupt_flag_monotone[of
      "(\<lparr>isInterrupted = False, interruptCallbacks = [(0, pthread_kill 7 SIGUSR1)]\<rparr>, [])"
      "[CheckInterrupt None, SignalDelivery]" "[CheckInterrupt None, TriggerInterrupt]"]
    interrupt_flag_monotone[of "(\<lparr>isInterrupted = False, interruptCallbacks = []\<rparr>, [])"
      "[TriggerInterrupt]" "[]"]
  by (simp add: signalDelivered_def triggerInterrupt_def invokeCallbacks_def pthread_kill_def)

text \<open>
  Claim C2 as the specification words it, re-triggering is a no-op, fails once a
  callback is registered: with the callback that signals thread 7, the first trigger
  sets the flag and sends \<^verbatim>\<open>SIGUSR1\<close> to thread 7, and the second trigger, with the
  flag already set, sends it again.
\<close>

theorem interrupt_retrigger_resends:
  "isInterrupted (fst (interrupt_step
      (\<lparr>isInterrupted = False, interruptCallbacks = [(0, pthread_kill 7 SIGUSR1)]\<rparr>, [])
      TriggerInterrupt)) \<and>
   interrupt_step (interrupt_step
      (\<lparr>isInterrupted = False, interruptCallbacks = [(0, pthread_kill 7 SIGUSR1)]\<rparr>, [])
      TriggerInterrupt) TriggerInterrupt \<noteq>
   interrupt_step
      (\<lparr>isInterrupted = False, interruptCallbacks = [(0, pthread_kill 7 SIGUSR1)]\<rparr>, [])
      TriggerInterrupt \<and>
   snd (interrupt_step
      (\<lparr>isInterrupted = False, interruptCallbacks = [(0, pthread_kill 7 SIGUSR1)]\<rparr>, [])
      TriggerInterrupt) = [(7, SIGUSR1)] \<and>
   snd (interrupt_step (interrupt_step
      (\<lparr>isInterrupted = False, interruptCallbacks = [(0, pthread_kill 7 SIGUSR1)]\<rparr>, [])
      TriggerInterrupt) TriggerInterrupt) = [(7, SIGUSR1), (7, SIGUSR1)]"
  by (simp add: triggerInterrupt_def invokeCallbacks_def pthread_kill_def)

lemma fresh_above: "e \<in> set cbs \<Longrightarrow> fst e < fresh_handle cbs"
  by (induction cbs rule: fresh_handle.induct) auto

lemma filter_fresh: "filter (\<lambda>e. fst e \<noteq> fresh_handle cbs) cbs = cbs"
proof -
  have "fst e \<noteq> fresh_handle cbs" if "e \<in> set cbs" for e
    using fresh_above[OF that] by simp
  then show ?thesis by (simp add: filter_id_conv)
qed

text \<open>
  A registration that occurs once in the registry still occurs once, at its handle,
  after any further registration and after dropping any other handle.
\<close>

lemma registry_step_keeps:
  assumes "interruptCallbacks q = xs @ (h, cb) # ys" "h \<notin> fst ` set (xs @ ys)" "x \<noteq> Unregister h"
  shows "\<exists>xs' ys'. interruptCallbacks (registry_step q x) = xs' @ (h, cb) # ys' \<and>
           h \<notin> fst ` set (xs' @ ys')"
proof (cases x)
  case (Register c)
  let ?f = "fresh_handle (interruptCallbacks q)"
  have "(h, cb) \<in> set (interruptCallbacks q)" using assms(1) by simp
  from fresh_above[OF this] have "h \<noteq> ?f" by simp
  then have "h \<notin> fst ` set (xs @ (ys @ [(?f, c)]))" using assms(2) by auto
  moreover have "interruptCallbacks (registry_step q x) = xs @ (h, cb) # (ys @ [(?f, c)])"
    using Register assms(1) by (simp add: createInterruptCallback_def Let_def)
  ultimately show ?thesis by blast
next
  case (Unregister h')
  with assms(3) have ne: "h' \<noteq> h" by simp
  let ?P = "\<lambda>e. fst e \<noteq> h'"
  have "interruptCallbacks (registry_step q x) = filter ?P xs @ (h, cb) # filter ?P ys"
    using Unregister assms(1) ne by (simp add: dropInterruptCallback_def)
  moreover have "h \<notin> fst ` set (filter ?P xs @ filter ?P ys)" using assms(2) by auto
  ultimately show ?thesis by blast
qed

lemma registry_steps_keep:
  assumes "interruptCallbacks q = xs @ (h, cb) # ys" "h \<notin> fst ` set (xs @ ys)"
    "Unregister h \<notin> set ops"
  shows "\<exists>xs' ys'. interruptCallbacks (foldl registry_step q ops) = xs' @ (h, cb) # ys' \<and>
           h \<notin> fst ` set (xs' @ ys')"
  using assms
proof (induction ops arbitrary: q xs ys)
  case Nil
  then show ?case by auto
next
  case (Cons x ops)
  from Cons.prems have "x \<noteq> Unregister h" and rest: "Unregister h \<notin> set ops" by auto
  from registry_step_keeps[OF Cons.prems(1,2) this(1)]
  obtain xs' ys' where "interruptCallbacks (registry_step q x) = xs' @ (h, cb) # ys'"
    "h \<notin> fst ` set (xs' @ ys')" by blast
  from Cons.IH[OF this rest] show ?case by simp
qed

lemma drop_exactly:
  assumes "interruptCallbacks q = xs @ (h, cb) # ys" "h \<notin> fst ` set (xs @ ys)"
  shows "interruptCallbacks (dropInterruptCallback h q) = xs @ ys"
proof -
  have "filter (\<lambda>e. fst e \<noteq> h) xs = xs" "filter (\<lambda>e. fst e \<noteq> h) ys = ys"
    using assms(2) by (auto simp: filter_id_conv)
  then show ?thesis using assms(1) by (simp add: dropInterruptCallback_def)
qed

text \<open>
  Claim C9. Constructing a \<^verbatim>\<open>ReceiveInterrupts\<close> on a thread appends one callback to
  the registry; invoking that callback sends one signal, \<^verbatim>\<open>SIGUSR1\<close>, to the
  constructing thread, so a delivered interrupt sends it after the callbacks
  registered earlier have run. Destroying the object unregisters that callback:
  right after the construction the registry is what it was before, and after any
  later registrations and any dropping of other handles the callback is still
  registered once under the object's handle, and the destruction removes exactly
  it, keeping every other callback in its place, so that a delivered interrupt then
  runs the others and not this one.
\<close>

theorem ReceiveInterrupts_registers:
  assumes "ReceiveInterrupts_ctor self p = (r, p')"
  shows "target r = self \<and>
         (\<exists>cb. interruptCallbacks p' = interruptCallbacks p @ [(callback r, cb)] \<and>
               (\<forall>sent. cb sent = sent @ [(self, SIGUSR1)])) \<and>
         (\<forall>sent. snd (signalDelivered p' sent) = snd (signalDelivered p sent) @ [(self, SIGUSR1)]) \<and>
         ReceiveInterrupts_dtor r p' = p \<and>
         (\<forall>later. Unregister (callback r) \<notin> set later \<longrightarrow>
            (\<exists>xs cb ys.
               interruptCallbacks (foldl registry_step p' later) = xs @ (callback r, cb) # ys \<and>
               (\<forall>sent. cb sent = sent @ [(self, SIGUSR1)]) \<and>
               callback r \<notin> fst ` set (xs @ ys) \<and>
               interruptCallbacks (ReceiveInterrupts_dtor r (foldl registry_step p' later)) =
                 xs @ ys \<and>
               (\<forall>sent. snd (signalDelivered
                    (ReceiveInterrupts_dtor r (foldl registry_step p' later)) sent) =
                  fold (\<lambda>e w. snd e w) (xs @ ys) sent)))"
proof -
  let ?h = "fresh_handle (interruptCallbacks p)"
  let ?cb = "\<lambda>sent. pthread_kill self SIGUSR1 sent"
  from assms have r: "r = \<lparr>target = self, callback = ?h\<rparr>"
    and p': "p' = p\<lparr>interruptCallbacks := interruptCallbacks p @ [(?h, ?cb)]\<rparr>"
    by (auto simp: ReceiveInterrupts_ctor_def createInterruptCallback_def Let_def)
  have reg: "interruptCallbacks p' = interruptCallbacks p @ (?h, ?cb) # []" by (simp add: p')
  have fresh: "?h \<notin> fst ` set (interruptCallbacks p @ [])"
  proof
    assume "?h \<in> fst ` set (interruptCallbacks p @ [])"
    then obtain e where "e \<in> set (interruptCallbacks p)" "fst e = ?h" by auto
    with fresh_above[of e "interruptCallbacks p"] show False by simp
  qed
  have first: "target r = self \<and>
         (\<exists>cb. interruptCallbacks p' = interruptCallbacks p @ [(callback r, cb)] \<and>
               (\<forall>sent. cb sent = sent @ [(self, SIGUSR1)])) \<and>
         (\<forall>sent. snd (signalDelivered p' sent) = snd (signalDelivered p sent) @ [(self, SIGUSR1)]) \<and>
         ReceiveInterrupts_dtor r p' = p"
    by (simp add: r p' ReceiveInterrupts_dtor_def dropInterruptCallback_def signalDelivered_def
        invokeCallbacks_def pthread_kill_def filter_fresh)
  have later: "\<exists>xs cb ys.
               interruptCallbacks (foldl registry_step p' later) = xs @ (callback r, cb) # ys \<and>
               (\<forall>sent. cb sent = sent @ [(self, SIGUSR1)]) \<and>
               callback r \<notin> fst ` set (xs @ ys) \<and>
               interruptCallbacks (ReceiveInterrupts_dtor r (foldl registry_step p' later)) =
                 xs @ ys \<and>
               (\<forall>sent. snd (signalDelivered
                    (ReceiveInterrupts_dtor r (foldl registry_step p' later)) sent) =
                  fold (\<lambda>e w. snd e w) (xs @ ys) sent)"
    if "Unregister (callback r) \<notin> set later" for later
  proof -
    from that have "Unregister ?h \<notin> set later" by (simp add: r)
    from registry_steps_keep[OF reg fresh this]
    obtain xs ys where q: "interruptCallbacks (foldl registry_step p' later) = xs @ (?h, ?cb) # ys"
      "?h \<notin> fst ` set (xs @ ys)" by blast
    from drop_exactly[OF q]
    have d: "interruptCallbacks (ReceiveInterrupts_dtor r (foldl registry_step p' later)) = xs @ ys"
      by (simp add: ReceiveInterrupts_dtor_def r)
    have "\<forall>sent. ?cb sent = sent @ [(self, SIGUSR1)]" by (simp add: pthread_kill_def)
    moreover have "\<forall>sent. snd (signalDelivered
          (ReceiveInterrupts_dtor r (foldl registry_step p' later)) sent) =
        fold (\<lambda>e w. snd e w) (xs @ ys) sent"
      by (simp add: signalDelivered_def invokeCallbacks_def d)
    ultimately show ?thesis
      using q d by (intro exI[of _ xs] exI[of _ ?cb] exI[of _ ys]) (simp add: r)
  qed
  from first later show ?thesis by blast
qed

text \<open>
  The theorem at thread 7 in a process with no callback yet. Afterwards threads 8
  and 9 register their own callbacks and the one of thread 8 is dropped; destroying
  the object of thread 7 then leaves the callback of thread 9 alone in the registry,
  and a delivered interrupt signals thread 9 only.
\<close>

theorem ReceiveInterrupts_registers_witness:
  "ReceiveInterrupts_ctor 7 \<lparr>isInterrupted = False, interruptCallbacks = []\<rparr> =
     (\<lparr>target = 7, callback = 0\<rparr>,
      \<lparr>isInterrupted = False, interruptCallbacks = [(0, pthread_kill 7 SIGUSR1)]\<rparr>) \<and>
   snd (signalDelivered
      \<lparr>isInterrupted = False, interruptCallbacks = [(0, pthread_kill 7 SIGUSR1)]\<rparr> []) =
     [(7, SIGUSR1)] \<and>
   ReceiveInterrupts_dtor \<lparr>target = 7, callback = 0\<rparr>
      \<lparr>isInterrupted = False, interruptCallbacks = [(0, pthread_kill 7 SIGUSR1)]\<rparr> =
     \<lparr>isInterrupted = False, interruptCallbacks = []\<rparr> \<and>
   Unregister (callback \<lparr>target = 7, callback = 0\<rparr>) \<notin>
     set [Register (pthread_kill 8 SIGUSR1), Register (pthread_kill 9 SIGUSR1), Unregister 1] \<and>
   interruptCallbacks (foldl registry_step
      \<lparr>isInterrupted = False, interruptCallbacks = [(0, pthread_kill 7 SIGUSR1)]\<rparr>
      [Register (pthread_kill 8 SIGUSR1), Register (pthread_kill 9 SIGUSR1), Unregister 1]) =
     [(0, pthread_kill 7 SIGUSR1), (2, pthread_kill 9 SIGUSR1)] \<and>
   interruptCallbacks (ReceiveInterrupts_dtor \<lparr>target = 7, callback = 0\<rparr> (foldl registry_step
      \<lparr>isInterrupted = False, interruptCallbacks = [(0, pthread_kill 7 SIGUSR1)]\<rparr>
      [Register (pthread_kill 8 SIGUSR1), Register (pthread_kill 9 SIGUSR1), Unregister 1])) =
     [(2, pthread_kill 9 SIGUSR1)] \<and>
   snd (signalDelivered (ReceiveInterrupts_dtor \<lparr>target = 7, callback = 0\<rparr> (foldl registry_step
      \<lparr>isInterrupted = False, interruptCallbacks = [(0, pthread_kill 7 SIGUSR1)]\<rparr>
      [Register (pthread_kill 8 SIGUSR1), Register (pthread_kill 9 SIGUSR1), Unregister 1])) []) =
     [(9, SIGUSR1)]"
proof -
  let ?p = "\<lparr>isInterrupted = False, interruptCallbacks = []\<rparr>"
  let ?r = "\<lparr>target = 7, callback = 0\<rparr>"
  let ?p' = "\<lparr>isInterrupted = False, interruptCallbacks = [(0, pthread_kill 7 SIGUSR1)]\<rparr>"
  let ?later = "[Register (pthread_kill 8 SIGUSR1), Register (pthread_kill 9 SIGUSR1), Unregister 1]"
  have ctor: "ReceiveInterrupts_ctor 7 ?p = (?r, ?p')"
    by (simp add: ReceiveInterrupts_ctor_def createInterruptCallback_def)
  note inst = ReceiveInterrupts_registers[OF ctor]
  from inst have dtor: "ReceiveInterrupts_dtor ?r ?p' = ?p" by blast
  have sig: "snd (signalDelivered ?p' []) = [(7, SIGUSR1)]"
    by (simp add: signalDelivered_def invokeCallbacks_def pthread_kill_def)
  have other: "Unregister (callback ?r) \<notin> set ?later" by simp
  have reg: "interruptCallbacks (foldl registry_step ?p' ?later) =
      [(0, pthread_kill 7 SIGUSR1), (2, pthread_kill 9 SIGUSR1)]"
    by (simp add: createInterruptCallback_def dropInterruptCallback_def)
  have gone: "interruptCallbacks (ReceiveInterrupts_dtor ?r (foldl registry_step ?p' ?later)) =
      [(2, pthread_kill 9 SIGUSR1)]"
    by (simp add: ReceiveInterrupts_dtor_def createInterruptCallback_def dropInterruptCallback_def)
  have quiet: "snd (signalDelivered
      (ReceiveInterrupts_dtor ?r (foldl registry_step ?p' ?later)) []) = [(9, SIGUSR1)]"
    unfolding signalDelivered_def invokeCallbacks_def snd_conv gone
    by (simp add: pthread_kill_def)
  from ctor sig dtor other reg gone quiet show ?thesis by (intro conjI)
qed

section \<open>Properties of AutoCloseFD\<close>

lemmas fd_defs = close_def assign_def release_def AutoCloseFD_dtor_def AutoCloseFD_of_def

lemma fd_lifetime_run: "fd_lifetime d ops = fd_run (AutoCloseFD_of d, []) ops"
  by (simp add: fd_lifetime_def fd_run_def)

lemma fd_run_Nil: "fd_run (h, closed) [] = closed @ filter (\<lambda>n. n \<noteq> - 1) [fd h]"
  by (simp add: fd_run_def fd_defs)

lemma fd_run_Cons: "fd_run st (x # ops) = fd_run (fd_step st x) ops"
  by (simp add: fd_run_def)

lemma fd_run_append: "fd_run st (before @ ops) = fd_run (foldl fd_step st before) ops"
  by (simp add: fd_run_def)

text \<open>What each operation does to the handle and to the log of closes.\<close>

lemma fd_step_cases:
  "fd_step (h, closed) (Assign n) = (h\<lparr>fd := n\<rparr>, closed @ filter (\<lambda>n. n \<noteq> - 1) [fd h])"
  "fd_step (h, closed) Close = (h\<lparr>fd := - 1\<rparr>, closed @ filter (\<lambda>n. n \<noteq> - 1) [fd h])"
  "fd_step (h, closed) Release = (h\<lparr>fd := - 1\<rparr>, closed)"
  "fd_step (h, closed) Get = (h, closed)"
  by (simp_all add: fd_defs)

text \<open>
  Without \<^verbatim>\<open>release()\<close> the handle closes what it holds and then every valid
  descriptor it is assigned, each once and in that order.
\<close>

lemma fd_run_closed_form:
  "Release \<notin> set ops \<Longrightarrow>
     fd_run (h, closed) ops = closed @ filter (\<lambda>n. n \<noteq> - 1) (fd h # assigned ops)"
proof (induction ops arbitrary: h closed)
  case Nil
  then show ?case by (simp add: fd_run_Nil)
next
  case (Cons x ops)
  then have IH: "\<And>h closed. fd_run (h, closed) ops =
      closed @ filter (\<lambda>n. n \<noteq> - 1) (fd h # assigned ops)" by simp
  show ?case
  proof (cases x)
    case (Assign n)
    then show ?thesis by (simp add: fd_run_Cons fd_step_cases(1) IH del: fd_step.simps)
  next
    case Release
    with Cons.prems show ?thesis by simp
  next
    case Close
    then show ?thesis by (simp add: fd_run_Cons fd_step_cases(2) IH del: fd_step.simps)
  next
    case Get
    then show ?thesis by (simp add: fd_run_Cons IH)
  qed
qed

text \<open>The closes already in the log stay in front of the later ones.\<close>

lemma fd_run_log: "fd_run (h, closed) ops = closed @ fd_run (h, []) ops"
proof (induction ops arbitrary: h closed)
  case Nil
  then show ?case by (simp add: fd_run_Nil)
next
  case (Cons x ops)
  show ?case
  proof (cases x)
    case (Assign n)
    show ?thesis
      unfolding Assign fd_run_Cons fd_step_cases(1)
      using Cons.IH[of "h\<lparr>fd := n\<rparr>" "closed @ filter (\<lambda>n. n \<noteq> - 1) [fd h]"]
        Cons.IH[of "h\<lparr>fd := n\<rparr>" "[] @ filter (\<lambda>n. n \<noteq> - 1) [fd h]"]
      by simp
  next
    case Release
    show ?thesis
      unfolding Release fd_run_Cons fd_step_cases(3)
      using Cons.IH[of "h\<lparr>fd := - 1\<rparr>" closed] by simp
  next
    case Close
    show ?thesis
      unfolding Close fd_run_Cons fd_step_cases(2)
      using Cons.IH[of "h\<lparr>fd := - 1\<rparr>" "closed @ filter (\<lambda>n. n \<noteq> - 1) [fd h]"]
        Cons.IH[of "h\<lparr>fd := - 1\<rparr>" "[] @ filter (\<lambda>n. n \<noteq> - 1) [fd h]"]
      by simp
  next
    case Get
    show ?thesis
      unfolding Get fd_run_Cons fd_step_cases(4)
      using Cons.IH[of h closed] by simp
  qed
qed

text \<open>A handle closes nothing but what it holds and what it is assigned.\<close>

lemma fd_run_subset:
  "set (fd_run (h, closed) ops) \<subseteq>
     set closed \<union> set (filter (\<lambda>n. n \<noteq> - 1) (fd h # assigned ops))"
proof (induction ops arbitrary: h closed)
  case Nil
  then show ?case by (auto simp: fd_run_Nil)
next
  case (Cons x ops)
  show ?case
  proof (cases x)
    case (Assign n)
    show ?thesis
      unfolding Assign fd_run_Cons fd_step_cases(1)
      using Cons.IH[of "h\<lparr>fd := n\<rparr>" "closed @ filter (\<lambda>n. n \<noteq> - 1) [fd h]"] by auto
  next
    case Release
    show ?thesis
      unfolding Release fd_run_Cons fd_step_cases(3)
      using Cons.IH[of "h\<lparr>fd := - 1\<rparr>" closed] by auto
  next
    case Close
    show ?thesis
      unfolding Close fd_run_Cons fd_step_cases(2)
      using Cons.IH[of "h\<lparr>fd := - 1\<rparr>" "closed @ filter (\<lambda>n. n \<noteq> - 1) [fd h]"] by auto
  next
    case Get
    show ?thesis
      unfolding Get fd_run_Cons fd_step_cases(4)
      using Cons.IH[of h closed] by auto
  qed
qed

text \<open>
  Claim C4, as the model has it. Take a handle constructed with a valid descriptor
  \<open>d\<close>, any sequence of assignments, releases, closes and reads, and then its
  destruction. When \<^verbatim>\<open>release()\<close> is never called, the handle closes \<open>d\<close> first and
  then every valid descriptor it was assigned, each once for each time it was given:
  \<open>d\<close> is closed exactly once, and once more for each time the number \<open>d\<close> is assigned
  to the handle again. A call of \<^verbatim>\<open>release()\<close> closes nothing: where a destruction
  at that point closes what has been closed so far and the descriptor the handle
  holds, the release leaves that descriptor unclosed. From the release on the handle
  closes what a handle that holds nothing closes on the same operations: only
  descriptors assigned to it after the release.
\<close>

theorem AutoCloseFD_closes:
  "(d \<noteq> - 1 \<and> Release \<notin> set ops \<longrightarrow>
      fd_lifetime d ops = d # filter (\<lambda>n. n \<noteq> - 1) (assigned ops) \<and>
      count_list (fd_lifetime d ops) d = Suc (count_list (assigned ops) d)) \<and>
   fd_lifetime d before =
      snd (foldl fd_step (AutoCloseFD_of d, []) before) @
      filter (\<lambda>n. n \<noteq> - 1) [fd (fst (foldl fd_step (AutoCloseFD_of d, []) before))] \<and>
   fd_lifetime d (before @ Release # after) =
      snd (foldl fd_step (AutoCloseFD_of d, []) before) @ fd_run (AutoCloseFD_default, []) after \<and>
   set (fd_run (AutoCloseFD_default, []) after) \<subseteq> set (assigned after)"
proof (intro conjI impI)
  assume a: "d \<noteq> - 1 \<and> Release \<notin> set ops"
  then show form: "fd_lifetime d ops = d # filter (\<lambda>n. n \<noteq> - 1) (assigned ops)"
    using fd_run_closed_form[of ops "AutoCloseFD_of d" "[]"]
    by (simp add: fd_lifetime_run AutoCloseFD_of_def)
  have "count_list (filter (\<lambda>n. n \<noteq> - 1) xs) d = count_list xs d" for xs
    using a by (induction xs) auto
  then show "count_list (fd_lifetime d ops) d = Suc (count_list (assigned ops) d)"
    unfolding form by simp
next
  obtain h closed where st: "foldl fd_step (AutoCloseFD_of d, []) before = (h, closed)"
    by (cases "foldl fd_step (AutoCloseFD_of d, []) before")
  have "fd_lifetime d before = fd_run (h, closed) []"
    using fd_run_append[of "(AutoCloseFD_of d, [])" before "[]"] by (simp add: fd_lifetime_run st)
  then show "fd_lifetime d before =
      snd (foldl fd_step (AutoCloseFD_of d, []) before) @
      filter (\<lambda>n. n \<noteq> - 1) [fd (fst (foldl fd_step (AutoCloseFD_of d, []) before))]"
    by (simp only: fd_run_Nil st fst_conv snd_conv)
next
  obtain h closed where st: "foldl fd_step (AutoCloseFD_of d, []) before = (h, closed)"
    by (cases "foldl fd_step (AutoCloseFD_of d, []) before")
  have "fd_lifetime d (before @ Release # after) = fd_run (h\<lparr>fd := - 1\<rparr>, closed) after"
    by (simp add: fd_lifetime_run fd_run_append st fd_run_Cons fd_step_cases(3) del: fd_step.simps)
  also have "\<dots> = closed @ fd_run (h\<lparr>fd := - 1\<rparr>, []) after" by (rule fd_run_log)
  also have "h\<lparr>fd := - 1\<rparr> = AutoCloseFD_default" by (simp add: AutoCloseFD_default_def)
  finally show "fd_lifetime d (before @ Release # after) =
      snd (foldl fd_step (AutoCloseFD_of d, []) before) @ fd_run (AutoCloseFD_default, []) after"
    by (simp add: st)
next
  show "set (fd_run (AutoCloseFD_default, []) after) \<subseteq> set (assigned after)"
    using fd_run_subset[of AutoCloseFD_default "[]" after]
    by (auto simp: AutoCloseFD_default_def)
qed

text \<open>
  The theorem at the descriptor 5: a life without \<^verbatim>\<open>release()\<close> in which 5 is closed,
  opened again and assigned closes 5, 7 and 5; a life in which 7 is assigned and
  released closes 5 and, of what came after the release, 8.
\<close>

theorem AutoCloseFD_closes_witness:
  "(5::int) \<noteq> - 1 \<and> Release \<notin> set [Get, Assign 7, Close, Assign 5] \<and>
   fd_lifetime 5 [Get, Assign 7, Close, Assign 5] = [5, 7, 5] \<and>
   count_list (fd_lifetime 5 [Get, Assign 7]) 5 = 1 \<and>
   fd_lifetime 5 ([Assign 7] @ Release # [Assign 8]) = [5, 8] \<and>
   fd_run (AutoCloseFD_default, []) [Assign 8] = [8]"
  using AutoCloseFD_closes[of 5 "[Get, Assign 7, Close, Assign 5]" "[Assign 7]" "[Assign 8]"]
    AutoCloseFD_closes[of 5 "[Get, Assign 7]" "[]" "[]"]
  by (simp add: fd_lifetime_def fd_run_def fd_defs AutoCloseFD_default_def)

text \<open>
  Claim C4 as the specification words it fails in three ways. Construct with 5,
  release, destroy: the handle has closed nothing, not 5 exactly once. Construct with
  5, assign 5 again, destroy: the handle has closed 5 twice. Construct with 5,
  release, assign 5 back, destroy: nothing was closed up to the release, and the
  handle closes 5 after \<^verbatim>\<open>release()\<close> has been called.
\<close>

theorem AutoCloseFD_not_exactly_once:
  "count_list (fd_lifetime 5 [Release]) 5 = 0 \<and>
   count_list (fd_lifetime 5 [Assign 5]) 5 = 2 \<and>
   snd (foldl fd_step (AutoCloseFD_of 5, []) [Release]) = [] \<and>
   fd_lifetime 5 [Release, Assign 5] = [5]"
  by (simp add: fd_lifetime_def fd_defs)

section \<open>Properties of Pid\<close>

text \<open>
  Claim C7. A default-constructed \<^verbatim>\<open>Pid\<close> holds no child (its pid is -1), is not in a
  separate process group, and has \<^verbatim>\<open>SIGKILL\<close> as its kill signal; \<^verbatim>\<open>kill()\<close> on a handle
  that owns a child sends the configured signal to that child, or to its process
  group when the handle is marked as a separate group.
\<close>

theorem Pid_default_kill:
  "pid Pid_default = - 1 \<and> \<not> separatePG Pid_default \<and> killSignal Pid_default = SIGKILL \<and>
   kill Pid_default sent = None \<and>
   (\<forall>p. pid p \<noteq> - 1 \<longrightarrow>
      (\<exists>p'. kill p sent =
         Some (p', sent @ [(if separatePG p then - pid p else pid p, killSignal p)]))) \<and>
   (\<forall>child. child \<noteq> - 1 \<longrightarrow>
      (\<exists>p'. kill (Pid_of child) sent = Some (p', sent @ [(child, SIGKILL)])))"
  by (simp add: Pid_default_def Pid_of_def kill_def)

theorem Pid_default_kill_witness:
  "pid (setKillSignal 15 (Pid_of 4242)) \<noteq> - 1 \<and>
   kill (setKillSignal 15 (Pid_of 4242)) [] =
     Some (\<lparr>pid = - 1, separatePG = False, killSignal = 15\<rparr>, [(4242, 15)]) \<and>
   (4242::int) \<noteq> - 1 \<and>
   kill (Pid_of 4242) [] = Some (Pid_default, [(4242, SIGKILL)])"
  using Pid_default_kill[of "[]"]
  by (simp add: Pid_default_def Pid_of_def kill_def setKillSignal_def)

section \<open>Properties of the saved mount namespace\<close>

lemma restore_twice:
  "restoreMountNamespace setns s = Return s' \<Longrightarrow> restoreMountNamespace setns s' = Return s'"
  by (auto simp: restoreMountNamespace_def split: option.splits if_splits)

lemma restores_fixed:
  "restoreMountNamespace setns s = Return s \<Longrightarrow> restores setns n s = Return s"
  by (induction n) simp_all

lemma restores_one:
  "restores setns (Suc n) s = restoreMountNamespace setns s"
proof (cases "restoreMountNamespace setns s")
  case (Return s')
  then show ?thesis using restores_fixed[OF restore_twice[OF Return], of n] by simp
next
  case (Throw e)
  then show ?thesis by simp
next
  case Undefined_behaviour
  then show ?thesis by simp
qed

text \<open>
  Claim C6, as the model has it. \<^verbatim>\<open>saveMountNamespace()\<close> is idempotent: the first call
  records the current namespace and every later call changes nothing. For every
  \<open>n \<ge> 1\<close>, \<open>n\<close> calls of \<^verbatim>\<open>restoreMountNamespace()\<close> after it do what one call does;
  no call at all does the same only while the process is still in the recorded
  namespace and may enter it. Without a snapshot \<^verbatim>\<open>restoreMountNamespace()\<close> returns
  with the state unchanged, whatever the kernel would answer.
\<close>

theorem mount_namespace_snapshot:
  "saveMountNamespace (saveMountNamespace s) = saveMountNamespace s \<and>
   (fdSavedMountNamespace s = None \<longrightarrow>
      fdSavedMountNamespace (saveMountNamespace s) = Some (currentMountNamespace s)) \<and>
   (fdSavedMountNamespace s \<noteq> None \<longrightarrow> saveMountNamespace s = s) \<and>
   (1 \<le> n \<longrightarrow> restores setns n (saveMountNamespace s) =
      restoreMountNamespace setns (saveMountNamespace s)) \<and>
   (fdSavedMountNamespace (saveMountNamespace s) = Some (currentMountNamespace s) \<and>
    setns (currentMountNamespace s) \<longrightarrow>
      restores setns 0 (saveMountNamespace s) = restoreMountNamespace setns (saveMountNamespace s)) \<and>
   (fdSavedMountNamespace s = None \<longrightarrow> restoreMountNamespace setns s = Return s)"
proof (intro conjI impI)
  show "saveMountNamespace (saveMountNamespace s) = saveMountNamespace s"
    by (simp add: saveMountNamespace_def split: option.splits)
  show "fdSavedMountNamespace (saveMountNamespace s) = Some (currentMountNamespace s)"
    if "fdSavedMountNamespace s = None"
    using that by (simp add: saveMountNamespace_def)
  show "saveMountNamespace s = s" if "fdSavedMountNamespace s \<noteq> None"
    using that by (auto simp: saveMountNamespace_def split: option.splits)
  show "restores setns n (saveMountNamespace s) =
      restoreMountNamespace setns (saveMountNamespace s)" if "1 \<le> n"
  proof -
    from that obtain m where "n = Suc m" by (cases n) auto
    then show ?thesis by (simp only: restores_one)
  qed
  show "restores setns 0 (saveMountNamespace s) =
      restoreMountNamespace setns (saveMountNamespace s)"
    if "fdSavedMountNamespace (saveMountNamespace s) = Some (currentMountNamespace s) \<and>
        setns (currentMountNamespace s)"
  proof -
    have "currentMountNamespace (saveMountNamespace s) = currentMountNamespace s"
      by (simp add: saveMountNamespace_def split: option.splits)
    with that show ?thesis
      by (simp add: restoreMountNamespace_def)
  qed
  show "restoreMountNamespace setns s = Return s" if "fdSavedMountNamespace s = None"
    using that by (simp add: restoreMountNamespace_def)
qed

text \<open>
  The theorem at a process that saves in namespace 1 (no call and three calls of
  restore), at one that saved in namespace 1 and is now in namespace 2, and at a
  restore without a snapshot under a kernel that would refuse.
\<close>

theorem mount_namespace_snapshot_witness:
  "fdSavedMountNamespace \<lparr>fdSavedMountNamespace = None, currentMountNamespace = 1\<rparr> = None \<and>
   (1::nat) \<le> 3 \<and>
   saveMountNamespace \<lparr>fdSavedMountNamespace = None, currentMountNamespace = 1\<rparr> =
     \<lparr>fdSavedMountNamespace = Some 1, currentMountNamespace = 1\<rparr> \<and>
   restores (\<lambda>ns. True) 0
     (saveMountNamespace \<lparr>fdSavedMountNamespace = None, currentMountNamespace = 1\<rparr>) =
     restoreMountNamespace (\<lambda>ns. True)
       (saveMountNamespace \<lparr>fdSavedMountNamespace = None, currentMountNamespace = 1\<rparr>) \<and>
   fdSavedMountNamespace \<lparr>fdSavedMountNamespace = Some 1, currentMountNamespace = 2\<rparr> \<noteq> None \<and>
   saveMountNamespace \<lparr>fdSavedMountNamespace = Some 1, currentMountNamespace = 2\<rparr> =
     \<lparr>fdSavedMountNamespace = Some 1, currentMountNamespace = 2\<rparr> \<and>
   restores (\<lambda>ns. True) 3
     (saveMountNamespace \<lparr>fdSavedMountNamespace = Some 1, currentMountNamespace = 2\<rparr>) =
     Return \<lparr>fdSavedMountNamespace = Some 1, currentMountNamespace = 1\<rparr> \<and>
   restoreMountNamespace (\<lambda>ns. False)
     \<lparr>fdSavedMountNamespace = None, currentMountNamespace = 1\<rparr> =
     Return \<lparr>fdSavedMountNamespace = None, currentMountNamespace = 1\<rparr>"
  using mount_namespace_snapshot[of "\<lparr>fdSavedMountNamespace = None, currentMountNamespace = 1\<rparr>"
      3 "\<lambda>ns. False"]
    mount_namespace_snapshot[of "\<lparr>fdSavedMountNamespace = None, currentMountNamespace = 1\<rparr>"
      0 "\<lambda>ns. True"]
    mount_namespace_snapshot[of "\<lparr>fdSavedMountNamespace = Some 1, currentMountNamespace = 2\<rparr>"
      3 "\<lambda>ns. True"]
  by (simp add: saveMountNamespace_def restoreMountNamespace_def)

text \<open>
  Claim C6 as the specification words it, for every \<open>n \<ge> 0\<close>, fails at \<open>n = 0\<close>: a
  process saves in namespace 1, enters namespace 2 and calls
  \<^verbatim>\<open>saveMountNamespace()\<close> again. With no restore it stays in namespace 2; one
  restore takes it back to namespace 1.
\<close>

theorem mount_namespace_zero_restores:
  "restores (\<lambda>ns. True) 0
     (saveMountNamespace (enterMountNamespace 2 (saveMountNamespace
        \<lparr>fdSavedMountNamespace = None, currentMountNamespace = 1\<rparr>))) \<noteq>
   restoreMountNamespace (\<lambda>ns. True)
     (saveMountNamespace (enterMountNamespace 2 (saveMountNamespace
        \<lparr>fdSavedMountNamespace = None, currentMountNamespace = 1\<rparr>)))"
  by (simp add: saveMountNamespace_def restoreMountNamespace_def enterMountNamespace_def)


end
